theory Spec2Isabelle
  imports Main
begin

section \<open>The megatable fixture generator (sample_tables/megatable_gen.py)\<close>

text \<open>
  The script builds a dictionary of 26 columns by 50 rows of spreadsheet cells and wraps it
  in a document \<^verbatim>\<open>{"inputs": inputs}\<close>.  Python integers are \<^typ>\<open>int\<close>, Python strings
  are \<^typ>\<open>string\<close>, and a Python dictionary, whose keys keep their insertion order, is an
  association list with distinct keys, in insertion order.
\<close>

subsection \<open>The builtins the script calls\<close>

datatype error = ValueError | TypeError

type_synonym dict = "(string \<times> string) list"

type_synonym document = "(string \<times> dict) list"

text \<open>\<^verbatim>\<open>ord(s)\<close>: the code point of a string of length one, a TypeError otherwise.\<close>

definition ord :: "string \<Rightarrow> error + int" where
  "ord s = (case s of [c] \<Rightarrow> Inr (int (of_char c)) | _ \<Rightarrow> Inl TypeError)"

text \<open>
  \<^verbatim>\<open>chr(i)\<close>: the one-character string of code point \<open>i\<close>.  A \<^typ>\<open>char\<close> is a byte,
  so the model covers the code points below 256 and reports every other argument as an
  error; Python raises ValueError outside \<open>0..0x10FFFF\<close> only.  The model therefore fails
  wherever Python does, and the generator only ever passes 65..90.
\<close>

definition chr :: "int \<Rightarrow> error + string" where
  "chr i = (if 0 \<le> i \<and> i < 256 then Inr [char_of (nat i)] else Inl ValueError)"

text \<open>\<^verbatim>\<open>range(a, b)\<close>: the integers from \<open>a\<close> up to, not including, \<open>b\<close>.\<close>

definition py_range :: "int \<Rightarrow> int \<Rightarrow> int list" where
  "py_range a b = [a..b - 1]"

text \<open>The decimal digits of a natural number, most significant first.\<close>

definition digit_char :: "nat \<Rightarrow> char" where
  "digit_char d = char_of (48 + d)"

fun str_nat :: "nat \<Rightarrow> string" where
  "str_nat n = (if n < 10 then [digit_char n] else str_nat (n div 10) @ [digit_char (n mod 10)])"

declare str_nat.simps [simp del]

text \<open>
  CPython limits the conversion of an integer to decimal text: a number with more digits
  than \<^verbatim>\<open>sys.get_int_max_str_digits()\<close>, 4300 unless configured otherwise, raises
  ValueError.  The sign is not counted.  Both \<^verbatim>\<open>str(i)\<close> and the format specification
  \<^verbatim>\<open>02d\<close> go through this conversion.
\<close>

definition int_max_str_digits :: nat where
  "int_max_str_digits = 4300"

definition decimal_digits :: "int \<Rightarrow> error + string" where
  "decimal_digits i =
     (let digits = str_nat (nat \<bar>i\<bar>)
      in if int_max_str_digits < length digits then Inl ValueError else Inr digits)"

text \<open>\<^verbatim>\<open>str(i)\<close> for an integer: a minus sign for a negative number, then the digits.\<close>

definition str :: "int \<Rightarrow> error + string" where
  "str i =
     (case decimal_digits i of
        Inl e \<Rightarrow> Inl e
      | Inr digits \<Rightarrow> Inr ((if i < 0 then ''-'' else '''') @ digits))"

text \<open>
  The format specification \<^verbatim>\<open>02d\<close>: decimal, padded with zeros between the sign and the
  digits up to a total width of at least two characters.
\<close>

definition format_02d :: "int \<Rightarrow> error + string" where
  "format_02d i =
     (case decimal_digits i of
        Inl e \<Rightarrow> Inl e
      | Inr digits \<Rightarrow>
          (let sign = (if i < 0 then ''-'' else '''')
           in Inr (sign @ replicate (2 - (length sign + length digits)) CHR ''0'' @ digits)))"

text \<open>
  \<^verbatim>\<open>d[k] = v\<close>: a key that is present keeps its position and takes the new value, a new
  key goes to the end.
\<close>

fun setitem :: "dict \<Rightarrow> string \<Rightarrow> string \<Rightarrow> dict" where
  "setitem [] k v = [(k, v)]"
| "setitem ((k', v') # d) k v =
     (if k' = k then (k', v) # d else (k', v') # setitem d k v)"

subsection \<open>The script\<close>

text \<open>\<^verbatim>\<open>def get_cell_id(col, row): return f"{col}{row:02d}"\<close>\<close>

definition get_cell_id :: "string \<Rightarrow> int \<Rightarrow> error + string" where
  "get_cell_id col row =
     (case format_02d row of
        Inl e \<Rightarrow> Inl e
      | Inr digits \<Rightarrow> Inr (col @ digits))"

text \<open>The body of the inner loop of \<^verbatim>\<open>gen_megatable\<close>, for one column code and one row.\<close>

definition cell_step :: "int \<Rightarrow> int \<Rightarrow> dict \<Rightarrow> error + dict" where
  "cell_step col_code row inputs =
     (case chr col_code of
        Inl e \<Rightarrow> Inl e
      | Inr col \<Rightarrow>
          (case get_cell_id col row of
             Inl e \<Rightarrow> Inl e
           | Inr cell_id \<Rightarrow>
               if col = ''A''
               then (case str row of
                       Inl e \<Rightarrow> Inl e
                     | Inr literal \<Rightarrow> Inr (setitem inputs cell_id literal))
               else (case chr (col_code - 1) of
                       Inl e \<Rightarrow> Inl e
                     | Inr prev_col \<Rightarrow>
                         (case get_cell_id prev_col row of
                            Inl e \<Rightarrow> Inl e
                          | Inr prev_cell_id \<Rightarrow>
                              Inr (setitem inputs cell_id (''= '' @ prev_cell_id @ '' * 1.25''))))))"

text \<open>The inner loop over the rows and the outer loop over the column codes.\<close>

fun rows_loop :: "int \<Rightarrow> int list \<Rightarrow> dict \<Rightarrow> error + dict" where
  "rows_loop col_code [] inputs = Inr inputs"
| "rows_loop col_code (row # rows) inputs =
     (case cell_step col_code row inputs of
        Inl e \<Rightarrow> Inl e
      | Inr inputs' \<Rightarrow> rows_loop col_code rows inputs')"

fun cols_loop :: "int list \<Rightarrow> dict \<Rightarrow> error + dict" where
  "cols_loop [] inputs = Inr inputs"
| "cols_loop (col_code # col_codes) inputs =
     (case rows_loop col_code (py_range 1 51) inputs of
        Inl e \<Rightarrow> Inl e
      | Inr inputs' \<Rightarrow> cols_loop col_codes inputs')"

definition gen_megatable :: "error + document" where
  "gen_megatable =
     (case ord ''A'' of
        Inl e \<Rightarrow> Inl e
      | Inr a \<Rightarrow>
          (case ord ''Z'' of
             Inl e \<Rightarrow> Inl e
           | Inr z \<Rightarrow>
               (case cols_loop (py_range a (z + 1)) [] of
                  Inl e \<Rightarrow> Inl e
                | Inr inputs \<Rightarrow> Inr [(''inputs'', inputs)])))"

subsection \<open>The script on a store of objects\<close>

text \<open>
  The same function with the dictionary as an object: \<^verbatim>\<open>inputs = dict()\<close> allocates a
  new, empty dictionary at the next free address of the store, every assignment
  \<^verbatim>\<open>inputs[cell_id] = ...\<close> reads the object at that address and writes it back updated,
  and the returned document holds the reference.  The store stands for everything that
  outlives an invocation; \<open>returned_document\<close> is the document an invocation returns, read
  through its references in the store the invocation leaves.
\<close>

record store =
  objs :: "nat \<Rightarrow> dict"
  next_addr :: nat

definition new_dict :: "store \<Rightarrow> nat \<times> store" where
  "new_dict s =
     (next_addr s, s\<lparr>objs := (objs s)(next_addr s := []), next_addr := Suc (next_addr s)\<rparr>)"

definition cell_step_st :: "int \<Rightarrow> int \<Rightarrow> nat \<Rightarrow> store \<Rightarrow> (error + unit) \<times> store" where
  "cell_step_st col_code row inputs s =
     (case cell_step col_code row (objs s inputs) of
        Inl e \<Rightarrow> (Inl e, s)
      | Inr d \<Rightarrow> (Inr (), s\<lparr>objs := (objs s)(inputs := d)\<rparr>))"

fun rows_loop_st :: "int \<Rightarrow> int list \<Rightarrow> nat \<Rightarrow> store \<Rightarrow> (error + unit) \<times> store" where
  "rows_loop_st col_code [] inputs s = (Inr (), s)"
| "rows_loop_st col_code (row # rows) inputs s =
     (case cell_step_st col_code row inputs s of
        (Inl e, s') \<Rightarrow> (Inl e, s')
      | (Inr u, s') \<Rightarrow> rows_loop_st col_code rows inputs s')"

fun cols_loop_st :: "int list \<Rightarrow> nat \<Rightarrow> store \<Rightarrow> (error + unit) \<times> store" where
  "cols_loop_st [] inputs s = (Inr (), s)"
| "cols_loop_st (col_code # col_codes) inputs s =
     (case rows_loop_st col_code (py_range 1 51) inputs s of
        (Inl e, s') \<Rightarrow> (Inl e, s')
      | (Inr u, s') \<Rightarrow> cols_loop_st col_codes inputs s')"

definition gen_megatable_st :: "store \<Rightarrow> (error + (string \<times> nat) list) \<times> store" where
  "gen_megatable_st s =
     (case new_dict s of
        (inputs, s1) \<Rightarrow>
          (case ord ''A'' of
             Inl e \<Rightarrow> (Inl e, s1)
           | Inr a \<Rightarrow>
               (case ord ''Z'' of
                  Inl e \<Rightarrow> (Inl e, s1)
                | Inr z \<Rightarrow>
                    (case cols_loop_st (py_range a (z + 1)) inputs s1 of
                       (Inl e, s2) \<Rightarrow> (Inl e, s2)
                     | (Inr u, s2) \<Rightarrow> (Inr [(''inputs'', inputs)], s2)))))"

definition returned_document :: "store \<Rightarrow> error + document" where
  "returned_document s =
     (case gen_megatable_st s of
        (Inl e, s') \<Rightarrow> Inl e
      | (Inr refs, s') \<Rightarrow> Inr (map (\<lambda>(k, a). (k, objs s' a)) refs))"

subsection \<open>The table the script builds, in closed form\<close>

text \<open>
  The definitions below are not part of the script: they describe its result and the
  order in which it visits the cells, and the facts about the script are proved with
  them.  \<open>col_letter c\<close> is the one-letter string of the code point \<open>c\<close>,
  \<open>cell_content c r\<close> what the loop body stores for column code \<open>c\<close> and row \<open>r\<close>,
  \<open>grid\<close> the pairs of column code and row in the order of the two nested loops, and
  \<open>run_cells\<close> the execution of the loop body on a list of such pairs, one after the
  other.
\<close>

text \<open>
  The text of the three conversions where the limit on the number of digits is not
  reached: \<open>str_text\<close> for \<^verbatim>\<open>str\<close>, \<open>pad_text\<close> for \<^verbatim>\<open>02d\<close> and \<open>id_text\<close> for
  \<open>get_cell_id\<close>.
\<close>

definition str_text :: "int \<Rightarrow> string" where
  "str_text i = (if i < 0 then CHR ''-'' # str_nat (nat (- i)) else str_nat (nat i))"

definition pad_text :: "int \<Rightarrow> string" where
  "pad_text i =
     (let sign = (if i < 0 then ''-'' else '''');
          digits = str_nat (nat \<bar>i\<bar>)
      in sign @ replicate (2 - (length sign + length digits)) CHR ''0'' @ digits)"

definition id_text :: "string \<Rightarrow> int \<Rightarrow> string" where
  "id_text col row = col @ pad_text row"

definition col_letter :: "int \<Rightarrow> string" where
  "col_letter c = [char_of (nat c)]"

definition cell_content :: "int \<Rightarrow> int \<Rightarrow> string" where
  "cell_content c r =
     (if c = 65 then str_text r else ''= '' @ id_text (col_letter (c - 1)) r @ '' * 1.25'')"

definition cell_entry :: "int \<times> int \<Rightarrow> string \<times> string" where
  "cell_entry p = (id_text (col_letter (fst p)) (snd p), cell_content (fst p) (snd p))"

fun run_cells :: "(int \<times> int) list \<Rightarrow> dict \<Rightarrow> error + dict" where
  "run_cells [] inputs = Inr inputs"
| "run_cells (p # ps) inputs =
     (case cell_step (fst p) (snd p) inputs of
        Inl e \<Rightarrow> Inl e
      | Inr inputs' \<Rightarrow> run_cells ps inputs')"

definition grid :: "(int \<times> int) list" where
  "grid = List.product (py_range 65 91) (py_range 1 51)"

definition in_sheet :: "int \<times> int \<Rightarrow> bool" where
  "in_sheet p \<longleftrightarrow> 1 \<le> fst p \<and> fst p < 256 \<and> 0 \<le> snd p \<and> snd p < 100"

text \<open>The value of a digit string, used to tell cell identifiers apart.\<close>

definition digits_val :: "string \<Rightarrow> nat" where
  "digits_val s = foldl (\<lambda>a ch. 10 * a + (of_char ch - 48)) 0 s"

text \<open>
  The column letters and the key sequence of the specification: columns \<open>A\<close> to \<open>Z\<close>
  outermost, rows 1 to 50 innermost.
\<close>

definition column_letters :: string where
  "column_letters = ''ABCDEFGHIJKLMNOPQRSTUVWXYZ''"

definition column_major_keys :: "(error + string) list" where
  "column_major_keys =
     concat (map (\<lambda>ch. map (\<lambda>row. get_cell_id [ch] row) [1..50]) column_letters)"

text \<open>
  A consumer's view of a cell content: \<open>ref_of v\<close> is the identifier a formula
  \<^verbatim>\<open>= <id> * 1.25\<close> refers to, and \<open>None\<close> for any other content.  \<open>chase d n k\<close>
  follows the references from the key \<open>k\<close> for at most \<open>n\<close> cells and returns the key of
  the cell without a reference it arrives at; it returns \<open>None\<close> when a reference
  dangles or the chain is longer than \<open>n\<close>.
\<close>

definition ref_of :: "string \<Rightarrow> string option" where
  "ref_of v =
     (if 9 \<le> length v \<and> take 2 v = ''= '' \<and> drop (length v - 7) v = '' * 1.25''
      then Some (take (length v - 9) (drop 2 v)) else None)"

fun chase :: "dict \<Rightarrow> nat \<Rightarrow> string \<Rightarrow> string option" where
  "chase d 0 k = None"
| "chase d (Suc n) k =
     (case map_of d k of
        None \<Rightarrow> None
      | Some v \<Rightarrow> (case ref_of v of None \<Rightarrow> Some k | Some k' \<Rightarrow> chase d n k'))"

subsection \<open>Facts about the builtins\<close>

lemma setitem_fresh: "k \<notin> fst ` set d \<Longrightarrow> setitem d k v = d @ [(k, v)]"
  by (induction d) auto

lemma py_range_set: "set (py_range a b) = {a..<b}"
  by (auto simp add: py_range_def)

lemma py_range_distinct: "distinct (py_range a b)"
  by (simp add: py_range_def)

lemma py_range_length: "length (py_range a b) = nat (b - a)"
  by (simp add: py_range_def)

lemma py_range_nth: "n < nat (b - a) \<Longrightarrow> py_range a b ! n = a + int n"
  by (simp add: py_range_def)

lemma rows_upto: "py_range 1 51 = [1..50]"
  by (simp add: py_range_def)

lemma str_nat_one: "n < 10 \<Longrightarrow> str_nat n = [digit_char n]"
  by (simp add: str_nat.simps [of n])

lemma str_nat_two: "10 \<le> n \<Longrightarrow> n < 100 \<Longrightarrow> str_nat n = [digit_char (n div 10), digit_char (n mod 10)]"
  by (simp add: str_nat.simps [of n] str_nat_one)

lemma str_nat_nonempty: "1 \<le> length (str_nat n)"
  by (cases "n < 10") (simp_all add: str_nat.simps [of n])

lemma str_nat_three: "100 \<le> n \<Longrightarrow> 3 \<le> length (str_nat n)"
  using str_nat_nonempty [of "n div 10 div 10"]
  by (simp add: str_nat.simps [of n] str_nat.simps [of "n div 10"])

lemma digit_char_0: "digit_char 0 = CHR ''0''"
  by (simp add: digit_char_def char_of_eq_iff)

lemma digit_chars: "digit_char 0 = CHR ''0''" "digit_char 1 = CHR ''1''" "digit_char 5 = CHR ''5''"
  "digit_char 7 = CHR ''7''"
  by (simp_all add: digit_char_def char_of_eq_iff)

lemma digit_char_nonzero: "1 \<le> d \<Longrightarrow> d < 10 \<Longrightarrow> digit_char d \<noteq> CHR ''0''"
  by (simp add: digit_char_def char_of_eq_iff take_bit_eq_mod)

lemma pad_text_one: "0 \<le> r \<Longrightarrow> r < 10 \<Longrightarrow> pad_text r = [CHR ''0'', digit_char (nat r)]"
  by (simp add: pad_text_def str_nat_one)

lemma pad_text_two:
  "10 \<le> r \<Longrightarrow> r < 100 \<Longrightarrow> pad_text r = [digit_char (nat r div 10), digit_char (nat r mod 10)]"
  by (simp add: pad_text_def str_nat_two)

lemma pad_text_digits:
  "0 \<le> r \<Longrightarrow> r < 100 \<Longrightarrow> pad_text r = [digit_char (nat r div 10), digit_char (nat r mod 10)]"
  by (cases "r < 10") (simp_all add: pad_text_one pad_text_two digit_char_0)

lemma pad_text_wide: "10 \<le> r \<Longrightarrow> pad_text r = str_text r"
  using str_nat_nonempty [of "nat r div 10"]
  by (simp add: pad_text_def str_text_def Let_def str_nat.simps [of "nat r"])

lemma str_small:
  "1 \<le> r \<Longrightarrow> r \<le> 50 \<Longrightarrow>
   str_text r = (if r < 10 then [digit_char (nat r)] else [digit_char (nat r div 10), digit_char (nat r mod 10)])"
  by (simp add: str_text_def str_nat_one str_nat_two)

lemma str_no_leading_zero: "1 \<le> r \<Longrightarrow> r \<le> 50 \<Longrightarrow> hd (str_text r) \<noteq> CHR ''0''"
  by (simp add: str_small digit_char_nonzero)

lemma str_short: "1 \<le> r \<Longrightarrow> r \<le> 50 \<Longrightarrow> length (str_text r) < 9"
  by (simp add: str_small)

lemma str_7: "str_text 7 = ''7''"
  by (simp add: str_text_def str_nat_one digit_char_def char_of_eq_iff)

lemma str_123: "str_text 123 = ''123''"
  by (simp add: str_text_def str_nat.simps digit_char_def char_of_eq_iff)

lemma str_42: "str_text 42 = ''42''"
  by (simp add: str_text_def str_nat.simps digit_char_def char_of_eq_iff)

lemma cell_id_07: "id_text col 7 = col @ ''07''"
  by (simp add: id_text_def pad_text_one digit_char_def char_of_eq_iff)

lemma pad_text_7: "pad_text 7 = ''07''"
  using cell_id_07 [of "[]"] by (simp add: id_text_def)

lemma cell_id_01: "id_text col 1 = col @ ''01''"
  by (simp add: id_text_def pad_text_def str_nat.simps digit_char_def char_of_eq_iff)

lemma cell_id_50: "id_text col 50 = col @ ''50''"
  by (simp add: id_text_def pad_text_def str_nat.simps digit_char_def char_of_eq_iff)

subsection \<open>The limit on the number of digits\<close>

lemma str_nat_length_le: "n < 10 ^ k \<Longrightarrow> 0 < k \<Longrightarrow> length (str_nat n) \<le> k"
proof (induction n arbitrary: k rule: str_nat.induct)
  case (1 n)
  show ?case
  proof (cases "n < 10")
    case True
    with 1 show ?thesis by (simp add: str_nat_one)
  next
    case False
    from 1(3) obtain j where k: "k = Suc j" by (cases k) auto
    with False 1(2) have "0 < j" by (cases j) auto
    moreover from k 1(2) have "n div 10 < 10 ^ j"
      by (simp add: less_mult_imp_div_less mult.commute)
    ultimately have "length (str_nat (n div 10)) \<le> j"
      using 1(1) [OF False] by simp
    with False k show ?thesis by (simp add: str_nat.simps [of n])
  qed
qed

lemma str_nat_length_gt: "10 ^ k \<le> n \<Longrightarrow> k < length (str_nat n)"
proof (induction n arbitrary: k rule: str_nat.induct)
  case (1 n)
  show ?case
  proof (cases k)
    case 0
    with str_nat_nonempty [of n] show ?thesis by (cases "str_nat n") simp_all
  next
    case (Suc j)
    have "(10::nat) \<le> 10 * 10 ^ j" by simp
    moreover from Suc 1(2) have "10 * 10 ^ j \<le> n" by simp
    ultimately have big: "\<not> n < 10" by linarith
    from Suc 1(2) have "10 ^ j \<le> n div 10"
      by (simp add: less_eq_div_iff_mult_less_eq)
    with big 1(1) have "j < length (str_nat (n div 10))" by simp
    with big Suc show ?thesis by (simp add: str_nat.simps [of n])
  qed
qed

lemma digits_fit: "\<bar>i\<bar> < 10 ^ int_max_str_digits \<Longrightarrow> length (str_nat (nat \<bar>i\<bar>)) \<le> int_max_str_digits"
proof -
  assume "\<bar>i\<bar> < 10 ^ int_max_str_digits"
  then have "nat \<bar>i\<bar> < 10 ^ int_max_str_digits"
    by (simp add: nat_less_iff)
  then show ?thesis
    by (rule str_nat_length_le) (simp add: int_max_str_digits_def)
qed

lemma digits_exceed: "10 ^ int_max_str_digits \<le> \<bar>i\<bar> \<Longrightarrow> int_max_str_digits < length (str_nat (nat \<bar>i\<bar>))"
proof -
  assume "10 ^ int_max_str_digits \<le> \<bar>i\<bar>"
  then have "10 ^ int_max_str_digits \<le> nat \<bar>i\<bar>"
    by (simp add: le_nat_iff)
  then show ?thesis
    by (rule str_nat_length_gt)
qed

lemma digits_small: "0 \<le> r \<Longrightarrow> r < 100 \<Longrightarrow> length (str_nat (nat \<bar>r\<bar>)) \<le> int_max_str_digits"
  by (cases "r < 10") (simp_all add: str_nat_one str_nat_two int_max_str_digits_def)

lemma str_Inr: "length (str_nat (nat \<bar>i\<bar>)) \<le> int_max_str_digits \<Longrightarrow> str i = Inr (str_text i)"
  by (simp add: str_def decimal_digits_def str_text_def Let_def)

lemma format_02d_Inr:
  "length (str_nat (nat \<bar>i\<bar>)) \<le> int_max_str_digits \<Longrightarrow> format_02d i = Inr (pad_text i)"
  by (simp add: format_02d_def decimal_digits_def pad_text_def Let_def)

lemma get_cell_id_Inr:
  "length (str_nat (nat \<bar>i\<bar>)) \<le> int_max_str_digits \<Longrightarrow> get_cell_id col i = Inr (id_text col i)"
  by (simp add: get_cell_id_def format_02d_Inr id_text_def)

lemma get_cell_id_Inl:
  "int_max_str_digits < length (str_nat (nat \<bar>i\<bar>)) \<Longrightarrow> get_cell_id col i = Inl ValueError"
  by (simp add: get_cell_id_def format_02d_def decimal_digits_def Let_def)

lemma str_Inl:
  "int_max_str_digits < length (str_nat (nat \<bar>i\<bar>)) \<Longrightarrow> str i = Inl ValueError"
  by (simp add: str_def decimal_digits_def Let_def)

lemma str_row: "0 \<le> r \<Longrightarrow> r < 100 \<Longrightarrow> str r = Inr (str_text r)"
  by (rule str_Inr [OF digits_small])

lemma format_02d_row: "0 \<le> r \<Longrightarrow> r < 100 \<Longrightarrow> format_02d r = Inr (pad_text r)"
  by (rule format_02d_Inr [OF digits_small])

lemma get_cell_id_row: "0 \<le> r \<Longrightarrow> r < 100 \<Longrightarrow> get_cell_id col r = Inr (id_text col r)"
  by (rule get_cell_id_Inr [OF digits_small])

subsection \<open>Cell identifiers are distinct\<close>

lemma digits_val_snoc: "digits_val (s @ [ch]) = 10 * digits_val s + (of_char ch - 48)"
  by (simp add: digits_val_def)

lemma digit_char_val: "d < 10 \<Longrightarrow> of_char (digit_char d) - 48 = d"
  by (simp add: digit_char_def)

lemma digits_val_str_nat: "digits_val (str_nat n) = n"
proof (induction n rule: str_nat.induct)
  case (1 n)
  show ?case
  proof (cases "n < 10")
    case True
    then show ?thesis
      using digits_val_snoc [of "[]" "digit_char n"]
      by (simp add: str_nat.simps [of n] digit_char_val digits_val_def)
  next
    case False
    with 1 show ?thesis
      by (simp add: str_nat.simps [of n] digits_val_snoc digit_char_val)
  qed
qed

lemma digits_val_zeros: "digits_val (replicate k CHR ''0'' @ s) = digits_val s"
proof -
  have "foldl (\<lambda>a ch. 10 * a + (of_char ch - 48)) (0::nat) (replicate k CHR ''0'') = 0"
    by (induction k) simp_all
  then show ?thesis by (simp add: digits_val_def)
qed

lemma digits_val_pad_text: "0 \<le> r \<Longrightarrow> digits_val (pad_text r) = nat r"
  by (simp add: pad_text_def Let_def digits_val_zeros digits_val_str_nat)

lemma pad_text_inj: "0 \<le> r \<Longrightarrow> 0 \<le> r' \<Longrightarrow> pad_text r = pad_text r' \<Longrightarrow> r = r'"
  using digits_val_pad_text [of r] digits_val_pad_text [of r'] by simp

lemma chr_col_letter: "0 \<le> c \<Longrightarrow> c < 256 \<Longrightarrow> chr c = Inr (col_letter c)"
  by (simp add: chr_def col_letter_def)

lemma col_letter_A: "0 \<le> c \<Longrightarrow> c < 256 \<Longrightarrow> col_letter c = ''A'' \<longleftrightarrow> c = 65"
  by (auto simp add: col_letter_def char_of_eq_iff take_bit_eq_mod)

lemma col_letter_ABC: "col_letter 65 = ''A''" "col_letter 66 = ''B''" "col_letter 67 = ''C''"
  by (simp_all add: col_letter_def char_of_eq_iff)

lemma col_letter_Z: "col_letter 90 = ''Z''"
  by (simp add: col_letter_def char_of_eq_iff)

lemma of_char_col_letter: "0 \<le> c \<Longrightarrow> c < 256 \<Longrightarrow> of_char (hd (col_letter c)) = nat c"
  by (simp add: col_letter_def)

lemma hd_cell_id: "hd (id_text (col_letter c) r) = hd (col_letter c)"
  by (simp add: id_text_def col_letter_def)

lemma tl_cell_id: "tl (id_text (col_letter c) r) = pad_text r"
  by (simp add: id_text_def col_letter_def)

lemma cell_id_inj:
  assumes "0 \<le> c" "c < 256" "0 \<le> c'" "c' < 256" "0 \<le> r" "0 \<le> r'"
  shows "fst (cell_entry (c, r)) = fst (cell_entry (c', r')) \<longleftrightarrow> c = c' \<and> r = r'"
  using assms pad_text_inj [of r r']
  by (auto simp add: cell_entry_def id_text_def col_letter_def)

lemma cell_key_inj:
  assumes "0 \<le> fst p" "fst p < 256" "0 \<le> snd p"
    and "0 \<le> fst q" "fst q < 256" "0 \<le> snd q"
  shows "fst (cell_entry p) = fst (cell_entry q) \<longleftrightarrow> p = q"
  using assms cell_id_inj [of "fst p" "fst q" "snd p" "snd q"]
  by (simp add: prod_eq_iff)

subsection \<open>The loops\<close>

lemma cell_step_setitem:
  "1 \<le> c \<Longrightarrow> c < 256 \<Longrightarrow> 0 \<le> r \<Longrightarrow> r < 100 \<Longrightarrow>
   cell_step c r d = Inr (setitem d (fst (cell_entry (c, r))) (snd (cell_entry (c, r))))"
  by (simp add: cell_step_def chr_col_letter col_letter_A get_cell_id_row str_row cell_entry_def
      cell_content_def)

lemma cell_step_fresh:
  "1 \<le> c \<Longrightarrow> c < 256 \<Longrightarrow> 0 \<le> r \<Longrightarrow> r < 100 \<Longrightarrow>
   fst (cell_entry (c, r)) \<notin> fst ` set d \<Longrightarrow>
   cell_step c r d = Inr (d @ [cell_entry (c, r)])"
  by (simp add: cell_step_setitem setitem_fresh)

lemma rows_loop_run: "rows_loop c rs d = run_cells (map (Pair c) rs) d"
  by (induction rs arbitrary: d) (simp_all split: sum.splits)

lemma run_cells_append:
  "run_cells (ps @ qs) d = (case run_cells ps d of Inl e \<Rightarrow> Inl e | Inr d' \<Rightarrow> run_cells qs d')"
  by (induction ps arbitrary: d) (simp_all split: sum.splits)

lemma cols_loop_run: "cols_loop cs d = run_cells (List.product cs (py_range 1 51)) d"
  by (induction cs arbitrary: d) (simp_all add: rows_loop_run run_cells_append split: sum.splits)

lemma run_cells_closed:
  assumes "distinct ps" and "list_all in_sheet ps"
    and "\<And>p. p \<in> set ps \<Longrightarrow> fst (cell_entry p) \<notin> fst ` set d"
  shows "run_cells ps d = Inr (d @ map cell_entry ps)"
  using assms
proof (induction ps arbitrary: d)
  case Nil
  then show ?case by simp
next
  case (Cons p ps)
  from Cons.prems have p: "1 \<le> fst p" "fst p < 256" "0 \<le> snd p" "snd p < 100"
    by (simp_all add: in_sheet_def)
  from Cons.prems(3) [of p] have fresh: "fst (cell_entry (fst p, snd p)) \<notin> fst ` set d"
    by simp
  have step: "cell_step (fst p) (snd p) d = Inr (d @ [cell_entry p])"
    using cell_step_fresh [OF p fresh] by simp
  have "fst (cell_entry q) \<notin> fst ` set (d @ [cell_entry p])" if q: "q \<in> set ps" for q
  proof -
    from q Cons.prems(1) have "q \<noteq> p" by auto
    moreover from q Cons.prems(2) have "in_sheet q"
      by (simp add: list_all_iff)
    ultimately have "fst (cell_entry q) \<noteq> fst (cell_entry p)"
      using p cell_key_inj [of q p] by (simp add: in_sheet_def)
    moreover from q Cons.prems(3) [of q] have "fst (cell_entry q) \<notin> fst ` set d"
      by simp
    ultimately show ?thesis by auto
  qed
  with Cons.prems have "run_cells ps (d @ [cell_entry p]) = Inr ((d @ [cell_entry p]) @ map cell_entry ps)"
    by (intro Cons.IH) simp_all
  with step show ?case by simp
qed

lemma grid_set: "set grid = {65..<91} \<times> {1..<51}"
  unfolding grid_def by (simp only: set_product py_range_set)

lemma grid_distinct: "distinct grid"
  unfolding grid_def by (simp only: distinct_product py_range_distinct)

lemma grid_length: "length grid = 1300"
  unfolding grid_def by (simp only: length_product py_range_length) simp

lemma grid_in_sheet: "list_all in_sheet grid"
  by (auto simp add: list_all_iff grid_set in_sheet_def)

lemma grid_nth: "n < 1300 \<Longrightarrow> grid ! n = (65 + int (n div 50), 1 + int (n mod 50))"
  unfolding grid_def
  by (simp add: product_nth py_range_length py_range_nth less_mult_imp_div_less)

lemma cols_loop_grid: "cols_loop (py_range 65 91) [] = Inr (map cell_entry grid)"
  using run_cells_closed [OF grid_distinct grid_in_sheet, of "[]"]
  by (simp add: cols_loop_run grid_def)

lemma gen_megatable_closed: "gen_megatable = Inr [(''inputs'', map cell_entry grid)]"
  by (simp add: gen_megatable_def ord_def cols_loop_grid)

lemma grid_keys_distinct: "distinct (map fst (map cell_entry grid))"
proof -
  have "inj_on (\<lambda>p. fst (cell_entry p)) (set grid)"
    by (rule inj_onI) (use cell_key_inj in \<open>auto simp add: grid_set\<close>)
  with grid_distinct show ?thesis
    by (simp add: distinct_map comp_def)
qed

lemma grid_lookup:
  assumes "65 \<le> c" "c \<le> 90" "1 \<le> r" "r \<le> 50"
  shows "map_of (map cell_entry grid) (id_text (col_letter c) r) = Some (cell_content c r)"
proof -
  from assms have "cell_entry (c, r) \<in> set (map cell_entry grid)"
    by (simp add: grid_set)
  with grid_keys_distinct show ?thesis
    by (simp add: cell_entry_def)
qed

lemma grid_entries:
  "e \<in> set (map cell_entry grid) \<longleftrightarrow>
   (\<exists>c r. e = cell_entry (c, r) \<and> 65 \<le> c \<and> c \<le> 90 \<and> 1 \<le> r \<and> r \<le> 50)"
proof
  assume "e \<in> set (map cell_entry grid)"
  then obtain c r where "e = cell_entry (c, r)" "65 \<le> c" "c < 91" "1 \<le> r" "r < 51"
    by (auto simp add: grid_set)
  then have "e = cell_entry (c, r) \<and> 65 \<le> c \<and> c \<le> 90 \<and> 1 \<le> r \<and> r \<le> 50"
    by simp
  then show "\<exists>c r. e = cell_entry (c, r) \<and> 65 \<le> c \<and> c \<le> 90 \<and> 1 \<le> r \<and> r \<le> 50"
    by blast
next
  assume "\<exists>c r. e = cell_entry (c, r) \<and> 65 \<le> c \<and> c \<le> 90 \<and> 1 \<le> r \<and> r \<le> 50"
  then show "e \<in> set (map cell_entry grid)"
    by (auto simp add: grid_set)
qed

lemma grid_key_nth:
  "n < 1300 \<Longrightarrow>
   map fst (map cell_entry grid) ! n = id_text (col_letter (65 + int (n div 50))) (1 + int (n mod 50))"
  by (simp add: grid_length grid_nth cell_entry_def)

lemma letters_of_codes: "map col_letter (py_range 65 91) = map (\<lambda>ch. [ch]) column_letters"
  by (simp add: py_range_def col_letter_def column_letters_def char_of_eq_iff)

lemma product_keys:
  "map fst (map cell_entry (List.product cs rs)) =
   concat (map (\<lambda>col. map (\<lambda>row. id_text col row) rs) (map col_letter cs))"
  by (induction cs) (simp_all add: cell_entry_def comp_def)

lemma grid_key_texts:
  "map fst (map cell_entry grid) =
   concat (map (\<lambda>ch. map (\<lambda>row. id_text [ch] row) [1..50]) column_letters)"
  unfolding grid_def product_keys letters_of_codes rows_upto
  by (simp add: comp_def)

lemma grid_keys: "map Inr (map fst (map cell_entry grid)) = column_major_keys"
proof -
  have "map (\<lambda>row. get_cell_id col row) [1..50] = map (\<lambda>row. Inr (id_text col row)) [1..50]"
    for col
    by (rule map_cong) (simp_all add: get_cell_id_row)
  then have "column_major_keys =
      concat (map (\<lambda>ch. map (\<lambda>row. Inr (id_text [ch] row)) [1..50]) column_letters)"
    by (simp only: column_major_keys_def)
  also have "\<dots> =
      map Inr (concat (map (\<lambda>ch. map (\<lambda>row. id_text [ch] row) [1..50]) column_letters))"
    by (simp only: map_concat map_map comp_def)
  finally show ?thesis
    by (simp only: grid_key_texts)
qed

lemma col_letter_in_letters: "65 \<le> c \<Longrightarrow> c \<le> 90 \<Longrightarrow> col_letter c \<in> set (map (\<lambda>ch. [ch]) column_letters)"
proof -
  assume "65 \<le> c" "c \<le> 90"
  then have "c \<in> set (py_range 65 91)"
    by (simp add: py_range_set)
  then have "col_letter c \<in> set (map col_letter (py_range 65 91))"
    by simp
  then show ?thesis
    by (simp only: letters_of_codes)
qed

lemma hd_col_letter: "65 \<le> c \<Longrightarrow> c \<le> 90 \<Longrightarrow> hd (col_letter c) \<in> set column_letters"
  using col_letter_in_letters [of c] by (auto simp add: col_letter_def)

subsection \<open>The store\<close>

lemma rows_loop_st_ok:
  "rows_loop c rs (objs s a) = Inr d \<Longrightarrow>
   rows_loop_st c rs a s = (Inr (), s\<lparr>objs := (objs s)(a := d)\<rparr>)"
proof (induction rs arbitrary: s)
  case Nil
  then have "(objs s)(a := d) = objs s" by auto
  then show ?case by simp
next
  case (Cons r rs)
  from Cons.prems obtain d1 where step: "cell_step c r (objs s a) = Inr d1"
    and rest: "rows_loop c rs d1 = Inr d"
    by (auto split: sum.splits)
  let ?s1 = "s\<lparr>objs := (objs s)(a := d1)\<rparr>"
  from rest have "rows_loop c rs (objs ?s1 a) = Inr d"
    by simp
  then have "rows_loop_st c rs a ?s1 = (Inr (), ?s1\<lparr>objs := (objs ?s1)(a := d)\<rparr>)"
    by (rule Cons.IH)
  with step show ?case
    by (cases s) (simp add: cell_step_st_def, simp add: fun_upd_def)
qed

lemma cols_loop_st_ok:
  "cols_loop cs (objs s a) = Inr d \<Longrightarrow>
   cols_loop_st cs a s = (Inr (), s\<lparr>objs := (objs s)(a := d)\<rparr>)"
proof (induction cs arbitrary: s)
  case Nil
  then have "(objs s)(a := d) = objs s" by auto
  then show ?case by simp
next
  case (Cons c cs)
  from Cons.prems obtain d1 where col: "rows_loop c (py_range 1 51) (objs s a) = Inr d1"
    and rest: "cols_loop cs d1 = Inr d"
    by (auto split: sum.splits)
  let ?s1 = "s\<lparr>objs := (objs s)(a := d1)\<rparr>"
  from rest have "cols_loop cs (objs ?s1 a) = Inr d"
    by simp
  then have "cols_loop_st cs a ?s1 = (Inr (), ?s1\<lparr>objs := (objs ?s1)(a := d)\<rparr>)"
    by (rule Cons.IH)
  with rows_loop_st_ok [OF col] show ?case
    by (cases s) (simp, simp add: fun_upd_def)
qed

lemma gen_megatable_st_closed:
  "gen_megatable_st s =
     (Inr [(''inputs'', next_addr s)],
      s\<lparr>objs := (objs s)(next_addr s := map cell_entry grid), next_addr := Suc (next_addr s)\<rparr>)"
proof -
  let ?s1 = "s\<lparr>objs := (objs s)(next_addr s := []), next_addr := Suc (next_addr s)\<rparr>"
  have "cols_loop (py_range 65 91) (objs ?s1 (next_addr s)) = Inr (map cell_entry grid)"
    by (simp add: cols_loop_grid)
  then have "cols_loop_st (py_range 65 91) (next_addr s) ?s1 =
      (Inr (), ?s1\<lparr>objs := (objs ?s1)(next_addr s := map cell_entry grid)\<rparr>)"
    by (rule cols_loop_st_ok)
  then show ?thesis
    by (simp add: gen_megatable_st_def new_dict_def ord_def)
qed

lemma returned_document_closed: "returned_document s = Inr [(''inputs'', map cell_entry grid)]"
  by (simp add: returned_document_def gen_megatable_st_closed)

subsection \<open>References between cells\<close>

lemma ref_of_formula: "ref_of (''= '' @ k @ '' * 1.25'') = Some k"
  by (simp add: ref_of_def)

lemma ref_of_short: "length v < 9 \<Longrightarrow> ref_of v = None"
  by (simp add: ref_of_def)

lemma ref_of_content:
  "1 \<le> r \<Longrightarrow> r \<le> 50 \<Longrightarrow>
   ref_of (cell_content c r) = (if c = 65 then None else Some (id_text (col_letter (c - 1)) r))"
  using ref_of_formula [of "id_text (col_letter (c - 1)) r"]
  by (simp add: cell_content_def ref_of_short str_short del: append.simps)

lemma entry_letters:
  assumes "e \<in> set (map cell_entry grid)"
  shows "hd (fst e) \<in> set column_letters \<and>
         (case ref_of (snd e) of None \<Rightarrow> True | Some k' \<Rightarrow> hd k' \<in> set column_letters)"
proof -
  from assms obtain c r where e: "e = cell_entry (c, r)"
    and cr: "65 \<le> c" "c \<le> 90" "1 \<le> r" "r \<le> 50"
    unfolding grid_entries by blast
  from cr have "hd (fst e) \<in> set column_letters"
    by (simp add: e cell_entry_def hd_cell_id hd_col_letter)
  moreover from cr have "c \<noteq> 65 \<Longrightarrow> hd (col_letter (c - 1)) \<in> set column_letters"
    by (simp add: hd_col_letter)
  ultimately show ?thesis
    using cr by (simp add: e cell_entry_def ref_of_content hd_cell_id)
qed

lemma chase_grid:
  assumes "1 \<le> r" and "r \<le> 50" and "c = 65 + int n" and "c \<le> 90"
  shows "chase (map cell_entry grid) (Suc n) (id_text (col_letter c) r) = Some (id_text ''A'' r)"
  using assms(3,4)
proof (induction n arbitrary: c)
  case 0
  with assms(1,2) grid_lookup [of 65 r] show ?case
    by (simp add: ref_of_short str_short col_letter_ABC cell_content_def)
next
  case (Suc n)
  from Suc.prems have c: "65 \<le> c" "c \<le> 90" "c \<noteq> 65" "c - 1 = 65 + int n" "c - 1 \<le> 90"
    by simp_all
  from c assms(1,2) grid_lookup [of c r]
  have "map_of (map cell_entry grid) (id_text (col_letter c) r) = Some (cell_content c r)"
    by simp
  moreover from c assms(1,2)
  have "ref_of (cell_content c r) = Some (id_text (col_letter (c - 1)) r)"
    by (simp add: ref_of_content)
  moreover from Suc.IH [OF c(4) c(5)]
  have "chase (map cell_entry grid) (Suc n) (id_text (col_letter (c - 1)) r) = Some (id_text ''A'' r)" .
  ultimately show ?case
    by (simp del: chase.simps add: chase.simps(2) [of _ "Suc n"])
qed

lemma entry_chain:
  assumes "e \<in> set (map cell_entry grid)"
  shows "(case ref_of (snd e) of
            None \<Rightarrow> hd (fst e) = CHR ''A''
          | Some k' \<Rightarrow> k' \<in> fst ` set (map cell_entry grid) \<and> tl k' = tl (fst e) \<and>
              Suc (of_char (hd k')) = of_char (hd (fst e))) \<and>
         chase (map cell_entry grid) (of_char (hd (fst e)) - 64) (fst e) = Some (''A'' @ tl (fst e)) \<and>
         (\<exists>r. 1 \<le> r \<and> r \<le> 50 \<and> tl (fst e) = pad_text r \<and>
              map_of (map cell_entry grid) (''A'' @ tl (fst e)) = Some (str_text r) \<and>
              ref_of (str_text r) = None)"
proof -
  from assms obtain c r where e: "e = cell_entry (c, r)"
    and cr: "65 \<le> c" "c \<le> 90" "1 \<le> r" "r \<le> 50"
    unfolding grid_entries by blast
  have k: "fst e = id_text (col_letter c) r" and v: "snd e = cell_content c r"
    by (simp_all add: e cell_entry_def)
  have "hd (fst e) = CHR ''A''" if "c = 65"
    using that by (simp add: k col_letter_ABC id_text_def)
  moreover have "id_text (col_letter (c - 1)) r \<in> fst ` set (map cell_entry grid) \<and>
      tl (id_text (col_letter (c - 1)) r) = tl (fst e) \<and>
      Suc (of_char (hd (id_text (col_letter (c - 1)) r))) = of_char (hd (fst e))" if "c \<noteq> 65"
  proof -
    from that cr have "cell_entry (c - 1, r) \<in> set (map cell_entry grid)"
      unfolding grid_entries by (intro exI [of _ "c - 1"] exI [of _ r]) simp
    then have "fst (cell_entry (c - 1, r)) \<in> fst ` set (map cell_entry grid)"
      by (rule imageI)
    with that cr show ?thesis
      by (simp add: k cell_entry_def hd_cell_id tl_cell_id of_char_col_letter)
  qed
  moreover from cr have "nat c - 64 = Suc (nat (c - 65))"
    by simp
  with cr chase_grid [of r c "nat (c - 65)"]
  have "chase (map cell_entry grid) (of_char (hd (fst e)) - 64) (fst e) = Some (''A'' @ tl (fst e))"
    by (simp add: k hd_cell_id tl_cell_id of_char_col_letter id_text_def [of "''A''"]
        del: chase.simps)
  moreover from cr grid_lookup [of 65 r]
  have "map_of (map cell_entry grid) (''A'' @ tl (fst e)) = Some (str_text r)"
    by (simp add: k tl_cell_id col_letter_ABC id_text_def [of "''A''"] cell_content_def)
  moreover from cr have "ref_of (str_text r) = None"
    by (simp add: ref_of_short str_short)
  moreover have "tl (fst e) = pad_text r"
    by (simp add: k tl_cell_id)
  ultimately show ?thesis
    using cr by (auto simp add: v ref_of_content simp del: chase.simps)
qed

lemma entry_C07: "cell_entry (67, 7) = (''C07'', ''= B07 * 1.25'')"
  by (simp add: cell_entry_def cell_content_def col_letter_ABC cell_id_07)

lemma entry_chain_source:
  assumes "e \<in> set (map cell_entry grid)"
  shows "\<exists>r literal. 1 \<le> r \<and> r \<le> 50 \<and> format_02d r = Inr (tl (fst e)) \<and> str r = Inr literal \<and>
           map_of (map cell_entry grid) (''A'' @ tl (fst e)) = Some literal \<and> ref_of literal = None"
proof -
  from entry_chain [OF assms] obtain r where r: "1 \<le> r" "r \<le> 50" "tl (fst e) = pad_text r"
    "map_of (map cell_entry grid) (''A'' @ tl (fst e)) = Some (str_text r)"
    "ref_of (str_text r) = None"
    by blast
  from r(1,2) have "format_02d r = Inr (pad_text r)" "str r = Inr (str_text r)"
    by (simp_all add: format_02d_row str_row)
  with r show ?thesis
    by (intro exI [of _ r] exI [of _ "str_text r"]) simp
qed

lemma id_text_min_width:
  "(1 \<le> row \<and> row \<le> 9 \<longrightarrow>
      id_text col row = col @ ''0'' @ str_text row \<and> length (str_text row) = 1) \<and>
   (10 \<le> row \<and> row \<le> 99 \<longrightarrow>
      id_text col row = col @ str_text row \<and> length (str_text row) = 2) \<and>
   (100 \<le> row \<longrightarrow>
      id_text col row = col @ str_text row \<and> 3 \<le> length (str_text row))"
proof -
  have one: "id_text col row = col @ ''0'' @ str_text row \<and> length (str_text row) = 1"
    if "1 \<le> row" "row \<le> 9"
    using that by (simp add: id_text_def pad_text_one str_text_def str_nat_one)
  have two: "id_text col row = col @ str_text row \<and> length (str_text row) = 2"
    if "10 \<le> row" "row \<le> 99"
    using that by (simp add: id_text_def pad_text_wide) (simp add: str_text_def str_nat_two)
  have three: "id_text col row = col @ str_text row \<and> 3 \<le> length (str_text row)"
    if "100 \<le> row"
    using that str_nat_three [of "nat row"]
    by (simp add: id_text_def pad_text_wide) (simp add: str_text_def)
  from one two three show ?thesis by blast
qed

lemma below_limit: "(r::int) < 1000 \<Longrightarrow> r < 10 ^ int_max_str_digits"
proof -
  have "(10::int) ^ 3 \<le> 10 ^ int_max_str_digits"
    by (rule power_increasing) (simp_all add: int_max_str_digits_def)
  moreover assume "r < 1000"
  ultimately show ?thesis by simp
qed

lemma str_src_123: "str 123 = Inr ''123''"
proof -
  have "length (str_nat (nat \<bar>123::int\<bar>)) \<le> int_max_str_digits"
    by (rule digits_fit) (simp add: below_limit)
  then have "str 123 = Inr (str_text 123)"
    by (rule str_Inr)
  then show ?thesis
    by (simp add: str_123)
qed

section \<open>The claims\<close>

text \<open>
  Claim C1.  For every column \<open>c\<close> from \<open>B\<close> to \<open>Z\<close> (code points 66 to 90) and every row
  \<open>r\<close> from 1 to 50, the \<open>inputs\<close> mapping of the generated document maps the identifier
  of cell \<open>(c, r)\<close> to the string \<^verbatim>\<open>= \<close> followed by the identifier of the cell of the
  preceding column in the same row, followed by \<^verbatim>\<open> * 1.25\<close>.
\<close>

theorem formula_cells:
  assumes "66 \<le> c" and "c \<le> 90" and "1 \<le> r" and "r \<le> 50"
  shows "\<exists>inputs k k'. gen_megatable = Inr [(''inputs'', inputs)] \<and>
           chr c = Inr (col_letter c) \<and> chr (c - 1) = Inr (col_letter (c - 1)) \<and>
           get_cell_id (col_letter c) r = Inr k \<and>
           get_cell_id (col_letter (c - 1)) r = Inr k' \<and>
           map_of inputs k = Some (''= '' @ k' @ '' * 1.25'')"
  using assms grid_lookup [of c r]
  by (simp add: gen_megatable_closed chr_col_letter cell_content_def get_cell_id_row)

theorem formula_cells_witness:
  "\<exists>inputs. gen_megatable = Inr [(''inputs'', inputs)] \<and>
     chr 67 = Inr ''C'' \<and> chr 66 = Inr ''B'' \<and>
     get_cell_id ''C'' 7 = Inr ''C07'' \<and> get_cell_id ''B'' 7 = Inr ''B07'' \<and>
     map_of inputs ''C07'' = Some ''= B07 * 1.25''"
  using formula_cells [of 67 7] by (simp add: col_letter_ABC get_cell_id_row cell_id_07)

text \<open>
  Claim C2.  For every row \<open>r\<close> from 1 to 50, the \<open>inputs\<close> mapping maps the column-A
  identifier, \<open>A\<close> followed by the two digits of \<open>r\<close>, to the decimal representation of
  \<open>r\<close>: one digit below 10, two digits otherwise, never a leading zero.
\<close>

theorem literal_cells:
  assumes "1 \<le> r" and "r \<le> 50"
  shows "\<exists>inputs literal. gen_megatable = Inr [(''inputs'', inputs)] \<and>
           get_cell_id ''A'' r = Inr (''A'' @ [digit_char (nat r div 10), digit_char (nat r mod 10)]) \<and>
           str r = Inr literal \<and>
           map_of inputs (''A'' @ [digit_char (nat r div 10), digit_char (nat r mod 10)]) = Some literal \<and>
           literal = (if r < 10 then [digit_char (nat r)]
                      else [digit_char (nat r div 10), digit_char (nat r mod 10)]) \<and>
           hd literal \<noteq> CHR ''0''"
proof -
  from assms have "map_of (map cell_entry grid) (id_text (col_letter 65) r) = Some (str_text r)"
    using grid_lookup [of 65 r] by (simp add: cell_content_def)
  moreover from assms
  have "id_text ''A'' r = ''A'' @ [digit_char (nat r div 10), digit_char (nat r mod 10)]"
    by (simp add: id_text_def pad_text_digits)
  ultimately show ?thesis
    using assms str_small [of r] str_no_leading_zero [of r]
    by (simp add: gen_megatable_closed col_letter_ABC get_cell_id_row str_row)
qed

theorem literal_cells_witness:
  "\<exists>inputs. gen_megatable = Inr [(''inputs'', inputs)] \<and>
     get_cell_id ''A'' 7 = Inr ''A07'' \<and> map_of inputs ''A07'' = Some ''7'' \<and> str 7 = Inr ''7''"
  using literal_cells [of 7] by (simp add: digit_chars str_row str_7)

text \<open>
  Claim C3.  The generated document has the single top-level key \<open>inputs\<close>, and the mapping
  under it has exactly 1300 entries, 26 columns by 50 rows, with pairwise distinct keys.
\<close>

theorem fixture_shape:
  "\<exists>inputs. gen_megatable = Inr [(''inputs'', inputs)] \<and>
     length inputs = 1300 \<and> length inputs = 26 * 50 \<and> distinct (map fst inputs)"
  using grid_keys_distinct by (simp add: gen_megatable_closed grid_length)

text \<open>
  Claim C4.  For every column letter from \<open>A\<close> to \<open>Z\<close> and every row from 1 to 50,
  \<open>get_cell_id\<close> returns the column letter followed by the tens digit and the units digit
  of the row: exactly one letter and exactly two digits.
\<close>

theorem cell_id_shape:
  assumes "65 \<le> c" and "c \<le> 90" and "1 \<le> r" and "r \<le> 50"
  shows "chr c = Inr (col_letter c) \<and> hd (col_letter c) \<in> set column_letters \<and>
         get_cell_id (col_letter c) r =
           Inr [hd (col_letter c), digit_char (nat r div 10), digit_char (nat r mod 10)] \<and>
         nat r div 10 < 10 \<and> nat r mod 10 < 10 \<and>
         (\<exists>k. get_cell_id (col_letter c) r = Inr k \<and> length k = 3)"
proof -
  from assms col_letter_in_letters [of c] have "hd (col_letter c) \<in> set column_letters"
    by (auto simp add: col_letter_def)
  with assms show ?thesis
    by (simp add: chr_col_letter get_cell_id_row id_text_def pad_text_digits col_letter_def)
qed

theorem cell_id_shape_witness:
  "chr 67 = Inr ''C'' \<and> CHR ''C'' \<in> set column_letters \<and> get_cell_id ''C'' 7 = Inr ''C07'' \<and>
   (\<exists>k. get_cell_id ''C'' 7 = Inr k \<and> length k = 3)"
  using cell_id_shape [of 67 7] by (simp add: col_letter_ABC digit_chars)

text \<open>
  Claim C5.  The keys of the \<open>inputs\<close> mapping, in insertion order, are the identifiers
  obtained with the columns \<open>A\<close> to \<open>Z\<close> outermost and the rows 1 to 50 innermost:
  \<open>A01\<close> first, \<open>A50\<close> in position 49, then \<open>B01\<close>, and \<open>Z50\<close> last.
\<close>

theorem key_order:
  "\<exists>inputs. gen_megatable = Inr [(''inputs'', inputs)] \<and>
     map Inr (map fst inputs) = column_major_keys \<and>
     map fst inputs ! 0 = ''A01'' \<and> map fst inputs ! 49 = ''A50'' \<and>
     map fst inputs ! 50 = ''B01'' \<and> map fst inputs ! 1299 = ''Z50''"
proof -
  let ?ks = "map fst (map cell_entry grid)"
  have "map Inr ?ks = column_major_keys"
    by (rule grid_keys)
  moreover have "?ks ! 0 = ''A01''"
    using grid_key_nth [of 0] by (simp add: col_letter_ABC cell_id_01)
  moreover have "?ks ! 49 = ''A50''"
    using grid_key_nth [of 49] by (simp add: col_letter_ABC cell_id_50)
  moreover have "?ks ! 50 = ''B01''"
    using grid_key_nth [of 50] by (simp add: col_letter_ABC cell_id_01)
  moreover have "?ks ! 1299 = ''Z50''"
    using grid_key_nth [of 1299] by (simp add: col_letter_Z cell_id_50)
  ultimately show ?thesis
    using gen_megatable_closed by blast
qed

text \<open>
  Claim C6.  The examples and boundary values of the specification:
  \<open>get_cell_id\<close> of \<open>B\<close> and 7 is \<open>B07\<close>; row 1 gives identifiers ending in \<open>01\<close> and
  row 50 identifiers ending in \<open>50\<close>; the cells \<open>A07\<close>, \<open>B07\<close>, \<open>C07\<close> and \<open>A01\<close> hold
  \<open>7\<close>, \<open>= A07 * 1.25\<close>, \<open>= B07 * 1.25\<close> and \<open>1\<close>; and every identifier that is a key or is
  referred to by a formula has a column letter from \<open>A\<close> to \<open>Z\<close>.
\<close>

theorem fixture_examples:
  "get_cell_id ''B'' 7 = Inr ''B07'' \<and>
   get_cell_id col 1 = Inr (col @ ''01'') \<and> get_cell_id col 50 = Inr (col @ ''50'') \<and>
   (\<exists>inputs. gen_megatable = Inr [(''inputs'', inputs)] \<and>
      map_of inputs ''A07'' = Some ''7'' \<and>
      map_of inputs ''B07'' = Some ''= A07 * 1.25'' \<and>
      map_of inputs ''C07'' = Some ''= B07 * 1.25'' \<and>
      map_of inputs ''A01'' = Some ''1'' \<and>
      list_all (\<lambda>e. hd (fst e) \<in> set column_letters \<and>
                  (case ref_of (snd e) of None \<Rightarrow> True
                   | Some k' \<Rightarrow> hd k' \<in> set column_letters)) inputs)"
proof -
  let ?t = "map cell_entry grid"
  have "map_of ?t ''A07'' = Some ''7''"
    using grid_lookup [of 65 7] by (simp add: col_letter_ABC cell_id_07 cell_content_def str_7)
  moreover have "map_of ?t ''B07'' = Some ''= A07 * 1.25''"
    using grid_lookup [of 66 7] by (simp add: col_letter_ABC cell_id_07 cell_content_def)
  moreover have "map_of ?t ''C07'' = Some ''= B07 * 1.25''"
    using grid_lookup [of 67 7] by (simp add: col_letter_ABC cell_id_07 cell_content_def)
  moreover have "map_of ?t ''A01'' = Some ''1''"
    using grid_lookup [of 65 1]
    by (simp add: col_letter_ABC cell_id_01 cell_content_def str_text_def str_nat.simps
        digit_char_def char_of_eq_iff)
  moreover have "list_all (\<lambda>e. hd (fst e) \<in> set column_letters \<and>
                  (case ref_of (snd e) of None \<Rightarrow> True
                   | Some k' \<Rightarrow> hd k' \<in> set column_letters)) ?t"
    unfolding list_all_iff using entry_letters by blast
  moreover have "get_cell_id ''B'' 7 = Inr ''B07''"
    by (simp add: get_cell_id_row cell_id_07)
  moreover have "get_cell_id col 1 = Inr (col @ ''01'')"
    by (simp add: get_cell_id_row cell_id_01)
  moreover have "get_cell_id col 50 = Inr (col @ ''50'')"
    by (simp add: get_cell_id_row cell_id_50)
  ultimately show ?thesis
    using gen_megatable_closed by blast
qed

text \<open>
  Claim C7.  The generator is deterministic: two invocations return identical documents.
  An invocation runs \<open>gen_megatable_st\<close> on the store it finds and returns a document
  that refers to a dictionary in the store it leaves.  Whatever the stores \<open>s1\<close> and
  \<open>s2\<close> of two invocations hold, the returned documents are equal, and equal to the document
  of \<open>gen_megatable\<close>; a document is an association list in insertion order, so the keys,
  the value of every key and the order agree.  A second invocation in the store left by the
  first returns another dictionary object with the same content, and leaves the first
  unchanged.
\<close>

theorem generator_deterministic:
  "returned_document s1 = returned_document s2 \<and>
   returned_document s1 = gen_megatable \<and>
   (\<exists>inputs. returned_document s1 = Inr [(''inputs'', inputs)] \<and>
      returned_document s2 = Inr [(''inputs'', inputs)]) \<and>
   (\<exists>inputs a1 a2 t1 t2.
      gen_megatable_st s1 = (Inr [(''inputs'', a1)], t1) \<and>
      gen_megatable_st t1 = (Inr [(''inputs'', a2)], t2) \<and>
      a1 \<noteq> a2 \<and> objs t1 a1 = inputs \<and> objs t2 a1 = inputs \<and> objs t2 a2 = inputs \<and>
      map fst (objs t2 a1) = map fst (objs t2 a2) \<and>
      map_of (objs t2 a1) = map_of (objs t2 a2))"
  by (simp add: returned_document_closed gen_megatable_closed gen_megatable_st_closed)

text \<open>
  Claim C8.  \<open>gen_megatable\<close> terminates and returns a document without an error: its two
  loops, structural recursions over finite lists, run over the 26 column codes from
  \<open>ord A\<close> to \<open>ord Z\<close> and over 50 rows, the loop nest is the execution of the loop body on
  the 1300 cells of \<open>grid\<close> in order, and that execution ends in a result.
\<close>

theorem generator_total:
  "ord ''A'' = Inr 65 \<and> ord ''Z'' = Inr 90 \<and>
   length (py_range 65 (90 + 1)) = 26 \<and> length (py_range 1 51) = 50 \<and> length grid = 1300 \<and>
   cols_loop (py_range 65 (90 + 1)) [] = run_cells grid [] \<and>
   (\<exists>inputs. run_cells grid [] = Inr inputs \<and> gen_megatable = Inr [(''inputs'', inputs)])"
  using cols_loop_grid
  by (simp add: ord_def py_range_length grid_length cols_loop_run [of _ "[]"] gen_megatable_closed
      grid_def)

text \<open>
  Claim C9.  In the generated \<open>inputs\<close> mapping, every cell without a reference is in
  column \<open>A\<close>, and every reference of a formula is a key of the mapping, in the same row and
  exactly one column to the left.  Following the references from a cell of column number
  \<open>n\<close> (\<open>A\<close> being 1) ends, after visiting \<open>n\<close> cells, at the column-A cell of the same row,
  which holds the row number as a literal: no reference dangles and there is no cycle.
\<close>

theorem reference_chains:
  "\<exists>inputs. gen_megatable = Inr [(''inputs'', inputs)] \<and>
     (\<forall>e \<in> set inputs.
        (case ref_of (snd e) of
           None \<Rightarrow> hd (fst e) = CHR ''A''
         | Some k' \<Rightarrow> k' \<in> fst ` set inputs \<and> tl k' = tl (fst e) \<and>
             Suc (of_char (hd k')) = of_char (hd (fst e))) \<and>
        chase inputs (of_char (hd (fst e)) - 64) (fst e) = Some (''A'' @ tl (fst e)) \<and>
        (\<exists>r literal. 1 \<le> r \<and> r \<le> 50 \<and> format_02d r = Inr (tl (fst e)) \<and>
             str r = Inr literal \<and>
             map_of inputs (''A'' @ tl (fst e)) = Some literal \<and> ref_of literal = None))"
  using gen_megatable_closed entry_chain entry_chain_source by blast

theorem reference_chains_witness:
  "\<exists>inputs. gen_megatable = Inr [(''inputs'', inputs)] \<and>
     (''C07'', ''= B07 * 1.25'') \<in> set inputs \<and>
     ref_of ''= B07 * 1.25'' = Some ''B07'' \<and> ''B07'' \<in> fst ` set inputs \<and>
     chase inputs 3 ''C07'' = Some ''A07'' \<and> map_of inputs ''A07'' = Some ''7''"
proof -
  from reference_chains obtain inputs where g: "gen_megatable = Inr [(''inputs'', inputs)]"
    and chains: "\<forall>e \<in> set inputs.
        (case ref_of (snd e) of
           None \<Rightarrow> hd (fst e) = CHR ''A''
         | Some k' \<Rightarrow> k' \<in> fst ` set inputs \<and> tl k' = tl (fst e) \<and>
             Suc (of_char (hd k')) = of_char (hd (fst e))) \<and>
        chase inputs (of_char (hd (fst e)) - 64) (fst e) = Some (''A'' @ tl (fst e)) \<and>
        (\<exists>r literal. 1 \<le> r \<and> r \<le> 50 \<and> format_02d r = Inr (tl (fst e)) \<and>
             str r = Inr literal \<and>
             map_of inputs (''A'' @ tl (fst e)) = Some literal \<and> ref_of literal = None)"
    by blast
  from g have inputs: "inputs = map cell_entry grid"
    by (simp add: gen_megatable_closed)
  have "cell_entry (67, 7) \<in> set (map cell_entry grid)"
    unfolding grid_entries by (intro exI [of _ 67] exI [of _ 7]) simp
  then have mem: "(''C07'', ''= B07 * 1.25'') \<in> set inputs"
    by (simp only: inputs entry_C07)
  have ref: "ref_of ''= B07 * 1.25'' = Some ''B07''"
    by (simp add: ref_of_def)
  from chains mem ref have "''B07'' \<in> fst ` set inputs"
    and "chase inputs (of_char (hd ''C07'') - 64) ''C07'' = Some ''A07''"
    and "\<exists>r literal. 1 \<le> r \<and> r \<le> 50 \<and> format_02d r = Inr ''07'' \<and> str r = Inr literal \<and>
           map_of inputs ''A07'' = Some literal"
    by (fastforce simp del: chase.simps)+
  moreover have "of_char (hd ''C07'') - 64 = (3::nat)"
    by simp
  moreover have "r = 7 \<and> literal = ''7''"
    if "1 \<le> r" "r \<le> 50" "format_02d r = Inr ''07''" "str r = Inr literal" for r literal
    using that pad_text_inj [of r 7] by (simp add: format_02d_row str_row pad_text_7 str_7)
  ultimately show ?thesis
    using g mem ref by (auto simp del: chase.simps)
qed

text \<open>
  Claim C10, as amended.  The padding of \<open>get_cell_id\<close> is a minimum width.  A row from 1
  to 9 is padded with one zero, a row from 10 to 99 is its own two digits, and a row from
  100 up to the limit of 4300 digits appears with all of its three or more digits; a row
  with more than 4300 digits makes the conversion raise ValueError.  For a row number (1 or
  more) the identifier has two characters after the column exactly when the row is at most
  99.
\<close>

theorem cell_id_min_width:
  "(1 \<le> row \<and> row \<le> 9 \<longrightarrow>
      (\<exists>s. str row = Inr s \<and> length s = 1 \<and> get_cell_id col row = Inr (col @ ''0'' @ s))) \<and>
   (10 \<le> row \<and> row \<le> 99 \<longrightarrow>
      (\<exists>s. str row = Inr s \<and> length s = 2 \<and> get_cell_id col row = Inr (col @ s))) \<and>
   (100 \<le> row \<and> row < 10 ^ int_max_str_digits \<longrightarrow>
      (\<exists>s. str row = Inr s \<and> 3 \<le> length s \<and> get_cell_id col row = Inr (col @ s))) \<and>
   (10 ^ int_max_str_digits \<le> row \<longrightarrow>
      str row = Inl ValueError \<and> get_cell_id col row = Inl ValueError) \<and>
   (1 \<le> row \<longrightarrow>
      ((\<exists>k. get_cell_id col row = Inr k \<and> length k = length col + 2) \<longleftrightarrow> row \<le> 99))"
proof -
  note pure = id_text_min_width [of row col]
  have fits: "str row = Inr (str_text row) \<and> get_cell_id col row = Inr (id_text col row)"
    if "0 \<le> row" "row < 10 ^ int_max_str_digits"
  proof -
    from that have "length (str_nat (nat \<bar>row\<bar>)) \<le> int_max_str_digits"
      by (intro digits_fit) simp
    then show ?thesis
      by (simp add: str_Inr get_cell_id_Inr)
  qed
  have small: "row < 10 ^ int_max_str_digits" if "row \<le> 99"
    using that by (intro below_limit) simp
  have one: "\<exists>s. str row = Inr s \<and> length s = 1 \<and> get_cell_id col row = Inr (col @ ''0'' @ s)"
    if "1 \<le> row" "row \<le> 9"
    using that pure fits small by simp
  have two: "\<exists>s. str row = Inr s \<and> length s = 2 \<and> get_cell_id col row = Inr (col @ s)"
    if "10 \<le> row" "row \<le> 99"
    using that pure fits small by simp
  have three: "\<exists>s. str row = Inr s \<and> 3 \<le> length s \<and> get_cell_id col row = Inr (col @ s)"
    if "100 \<le> row" "row < 10 ^ int_max_str_digits"
    using that pure fits by simp
  have four: "str row = Inl ValueError \<and> get_cell_id col row = Inl ValueError"
    if "10 ^ int_max_str_digits \<le> row"
  proof -
    from that have "0 \<le> row"
      by (rule order_trans [rotated]) simp
    with that have "int_max_str_digits < length (str_nat (nat \<bar>row\<bar>))"
      by (intro digits_exceed) simp
    then show ?thesis
      by (simp add: str_Inl get_cell_id_Inl)
  qed
  have five: "(\<exists>k. get_cell_id col row = Inr k \<and> length k = length col + 2) \<longleftrightarrow> row \<le> 99"
    if "1 \<le> row"
  proof (cases "row \<le> 9")
    case True
    with that one show ?thesis by auto
  next
    case nine: False
    show ?thesis
    proof (cases "row \<le> 99")
      case True
      with nine two show ?thesis by auto
    next
      case False
      show ?thesis
      proof (cases "row < 10 ^ int_max_str_digits")
        case True
        with False three show ?thesis by auto
      next
        case False
        with four have "get_cell_id col row = Inl ValueError" by simp
        with \<open>\<not> row \<le> 99\<close> show ?thesis by simp
      qed
    qed
  qed
  from one two three four five show ?thesis
    by blast
qed

theorem cell_id_min_width_witness:
  "(100::int) \<le> 123 \<and> (123::int) < 10 ^ int_max_str_digits \<and>
   str 123 = Inr ''123'' \<and> get_cell_id ''A'' 123 = Inr ''A123'' \<and>
   get_cell_id ''A'' 7 = Inr ''A07'' \<and> get_cell_id ''A'' 42 = Inr ''A42'' \<and>
   get_cell_id ''A'' (10 ^ int_max_str_digits) = Inl ValueError"
  using cell_id_min_width [of 123 "''A''"] cell_id_min_width [of 7 "''A''"]
    cell_id_min_width [of 42 "''A''"] cell_id_min_width [of "10 ^ int_max_str_digits" "''A''"]
    below_limit [of 123] below_limit [of 7] below_limit [of 42]
  by (simp add: str_src_123 str_row str_7 str_42 del: One_nat_def)

theorem cell_id_min_width_counterexample:
  "(100::int) \<le> 10 ^ 4300 \<and> get_cell_id ''A'' (10 ^ 4300) = Inl ValueError"
proof -
  have hundred: "(10::int) ^ 2 = 100"
    by simp
  have "(10::int) ^ 2 \<le> 10 ^ 4300"
    by (rule power_increasing) simp_all
  then have "(100::int) \<le> 10 ^ 4300"
    by (simp only: hundred)
  moreover have "int_max_str_digits < length (str_nat (nat \<bar>10 ^ int_max_str_digits :: int\<bar>))"
    by (rule digits_exceed) simp
  then have "get_cell_id ''A'' (10 ^ int_max_str_digits) = Inl ValueError"
    by (rule get_cell_id_Inl)
  then have "get_cell_id ''A'' (10 ^ 4300) = Inl ValueError"
    by (simp only: int_max_str_digits_def)
  ultimately show ?thesis
    by (rule conjI)
qed

end
